theory Spec2Isabelle
  imports Complex_Main "HOL-Library.AList" "HOL-Library.Sublist"
begin

section \<open>Strings\<close>

text \<open>
  A Python \<open>str\<close> is a sequence of Unicode code points and \<open>len\<close> counts code points,
  so a string is modelled as the list of its code points. \<open>str\<close> turns an ASCII literal
  into that form.
\<close>

type_synonym pystr = "nat list"

definition str :: "string \<Rightarrow> pystr" where
  "str s = map of_char s"

definition nl :: pystr where
  "nl = [10]"

text \<open>
  The characters that \<open>str.strip()\<close> removes when called without argument: the
  code points CPython classifies as whitespace.
\<close>

definition is_space :: "nat \<Rightarrow> bool" where
  "is_space c \<longleftrightarrow>
     (9 \<le> c \<and> c \<le> 13) \<or> (28 \<le> c \<and> c \<le> 32) \<or> c = 133 \<or> c = 160 \<or> c = 5760 \<or>
     (8192 \<le> c \<and> c \<le> 8202) \<or> c = 8232 \<or> c = 8233 \<or> c = 8239 \<or> c = 8287 \<or> c = 12288"

definition lstrip :: "pystr \<Rightarrow> pystr" where
  "lstrip s = dropWhile is_space s"

definition rstrip :: "pystr \<Rightarrow> pystr" where
  "rstrip s = rev (dropWhile is_space (rev s))"

definition strip :: "pystr \<Rightarrow> pystr" where
  "strip s = rstrip (lstrip s)"

text \<open>\<open>sep.join(xs)\<close>\<close>

fun join :: "pystr \<Rightarrow> pystr list \<Rightarrow> pystr" where
  "join sep [] = []"
| "join sep [x] = x"
| "join sep (x # y # ys) = x @ sep @ join sep (y # ys)"

section \<open>Exceptions and JSON values\<close>

text \<open>
  \<open>Exception m\<close> is \<open>raise Exception(m)\<close> of the source; the other constructors are the
  built-in exceptions that subscripting, attribute access and \<open>os.makedirs\<close> raise.
\<close>

datatype exn =
  Exception pystr | KeyError | IndexError | TypeError | AttributeError | FileNotFoundError

text \<open>
  The value \<open>response.json()\<close> returns. An object carries its items as the parsed
  dictionary holds them (one entry for each key).
\<close>

datatype json =
    JNull
  | JBool bool
  | JNum rat
  | JStr pystr
  | JArr "json list"
  | JObj "(pystr \<times> json) list"

text \<open>\<open>v[k]\<close> for a string key \<open>k\<close>\<close>

fun getitem :: "json \<Rightarrow> pystr \<Rightarrow> exn + json" where
  "getitem (JObj items) k = (case map_of items k of None \<Rightarrow> Inl KeyError | Some v \<Rightarrow> Inr v)"
| "getitem _ k = Inl TypeError"

text \<open>\<open>v[0]\<close>; the keys of a parsed JSON object are strings, so the key \<open>0\<close> is never present.\<close>

fun getitem0 :: "json \<Rightarrow> exn + json" where
  "getitem0 (JArr []) = Inl IndexError"
| "getitem0 (JArr (v # vs)) = Inr v"
| "getitem0 (JStr []) = Inl IndexError"
| "getitem0 (JStr (c # cs)) = Inr (JStr [c])"
| "getitem0 (JObj items) = Inl KeyError"
| "getitem0 _ = Inl TypeError"

text \<open>\<open>v.strip()\<close>\<close>

fun strip_method :: "json \<Rightarrow> exn + pystr" where
  "strip_method (JStr s) = Inr (strip s)"
| "strip_method _ = Inl AttributeError"

text \<open>\<open>result['choices'][0]['message']['content'].strip()\<close> (summarizer.py, line 85)\<close>

definition response_content :: "json \<Rightarrow> exn + pystr" where
  "response_content result =
     (case getitem result (str ''choices'') of Inl e \<Rightarrow> Inl e | Inr choices \<Rightarrow>
       (case getitem0 choices of Inl e \<Rightarrow> Inl e | Inr choice \<Rightarrow>
         (case getitem choice (str ''message'') of Inl e \<Rightarrow> Inl e | Inr message \<Rightarrow>
           (case getitem message (str ''content'') of Inl e \<Rightarrow> Inl e | Inr c \<Rightarrow>
              strip_method c))))"

section \<open>The world outside the program\<close>

text \<open>
  What \<open>requests.post\<close> does: it raises \<open>Timeout\<close>, raises another
  \<open>RequestException\<close>, or returns a response with a status code and a body. The body
  either is no JSON text (\<open>response.json()\<close> then raises requests' \<open>JSONDecodeError\<close>,
  which is a \<open>RequestException\<close>) or decodes to a value.
\<close>

datatype body = NotJson | Json json

datatype response = Timeout | RequestError | Http int body

text \<open>The input artifact: section key to paragraphs, in insertion order.\<close>

type_synonym sections = "(pystr \<times> pystr list) list"

text \<open>The summaries mapping: section key to summary, in insertion order.\<close>

type_synonym summaries = "(pystr \<times> pystr) list"

text \<open>
  What fetching and parsing the article gives (scraper.py, \<open>fetch_page\<close> and
  \<open>extract_content\<close>): the request fails, the page has no content area, or the
  sections are extracted. The HTML parser is outside the model.
\<close>

datatype page = Unreachable | NoContentArea | Article sections

text \<open>
  Console lines. The model keeps the lines that tell which section is handled, how it
  ended, and which exception a handler caught; banners and previews are left out.
\<close>

datatype line =
    Processing nat nat pystr
  | Skipping pystr nat
  | Calling pystr
  | Summarized pystr
  | Failed pystr
  | ErrorLine exn

datatype event = HttpGet pystr | HttpPost | Sleep rat | Print line

datatype content = TextFile pystr | JsonFile sections

text \<open>
  The state the program changes: the effects so far, oldest first, and the files on
  disk.
\<close>

record world =
  trace :: "event list"
  files :: "pystr \<rightharpoonup> content"

text \<open>
  What the program reads from outside: the API key in the process environment (after
  \<open>load_dotenv()\<close>), the reply of the completion endpoint to the k-th POST (counted
  from 0), what the article URL yields, and which paths can be written.
\<close>

record env =
  getenv_key :: "pystr option"
  service :: "nat \<Rightarrow> response"
  wikipedia :: "pystr \<Rightarrow> page"
  writable :: "pystr \<Rightarrow> bool"

definition emit :: "event \<Rightarrow> world \<Rightarrow> world" where
  "emit e w = w\<lparr>trace := trace w @ [e]\<rparr>"

definition sleep :: "rat \<Rightarrow> world \<Rightarrow> world" where
  "sleep d w = emit (Sleep d) w"

definition http_posts :: "world \<Rightarrow> nat" where
  "http_posts w = length (filter (\<lambda>e. e = HttpPost) (trace w))"

section \<open>GroqSummarizer\<close>

record summarizer =
  api_key :: pystr
  min_section_length :: nat
  max_retries :: nat
  base_delay :: nat

text \<open>\<open>__init__\<close>\<close>

definition GroqSummarizer :: "pystr \<Rightarrow> summarizer" where
  "GroqSummarizer key =
     \<lparr>api_key = key, min_section_length = 50, max_retries = 3, base_delay = 1\<rparr>"

definition prepare_section_text :: "pystr list \<Rightarrow> pystr" where
  "prepare_section_text paragraphs = strip (join (nl @ nl) paragraphs)"

definition is_section_valid :: "summarizer \<Rightarrow> pystr \<Rightarrow> bool" where
  "is_section_valid self section_text \<longleftrightarrow> length (strip section_text) \<ge> min_section_length self"

text \<open>
  The sleep of the branches that wait only when another attempt follows:
  \<open>if attempt < self.max_retries - 1: time.sleep(self.base_delay * (2 ** attempt))\<close>.
\<close>

definition backoff :: "summarizer \<Rightarrow> nat \<Rightarrow> world \<Rightarrow> world" where
  "backoff self attempt w =
     (if int attempt < int (max_retries self) - 1
      then sleep (of_nat (base_delay self * 2 ^ attempt)) w else w)"

text \<open>
  The body of \<open>for attempt in range(self.max_retries)\<close> in \<open>call_groq_api\<close>, over the
  attempts still to make. Each attempt sends one POST; the reply is the service's
  answer to that POST.
\<close>

fun attempts :: "summarizer \<Rightarrow> (nat \<Rightarrow> response) \<Rightarrow> nat list \<Rightarrow> world \<Rightarrow> (exn + pystr option) \<times> world" where
  "attempts self srv [] w = (Inr None, w)"
| "attempts self srv (attempt # rest) w =
     (let w1 = emit HttpPost w in
      case srv (http_posts w) of
        Timeout \<Rightarrow> attempts self srv rest (backoff self attempt w1)
      | RequestError \<Rightarrow> attempts self srv rest (backoff self attempt w1)
      | Http status_code b \<Rightarrow>
          if status_code = 200 then
            (case b of
               NotJson \<Rightarrow> attempts self srv rest (backoff self attempt w1)
             | Json result \<Rightarrow>
                 (case response_content result of
                    Inl e \<Rightarrow> (Inl e, w1)
                  | Inr s \<Rightarrow> (Inr (Some s), w1)))
          else if status_code = 429 then
            attempts self srv rest (sleep (of_nat (base_delay self * 2 ^ attempt)) w1)
          else attempts self srv rest (backoff self attempt w1))"

definition call_groq_api :: "summarizer \<Rightarrow> (nat \<Rightarrow> response) \<Rightarrow> world \<Rightarrow> (exn + pystr option) \<times> world" where
  "call_groq_api self srv w = attempts self srv [0..<max_retries self] w"

text \<open>The truth value of an \<open>Optional[str]\<close>: neither \<open>None\<close> nor the empty string.\<close>

fun truthy :: "pystr option \<Rightarrow> bool" where
  "truthy None = False"
| "truthy (Some s) = (s \<noteq> [])"

definition summarize_section ::
  "summarizer \<Rightarrow> (nat \<Rightarrow> response) \<Rightarrow> pystr \<Rightarrow> pystr list \<Rightarrow> world \<Rightarrow> (exn + pystr option) \<times> world" where
  "summarize_section self srv section_name paragraphs w =
     (let section_text = prepare_section_text paragraphs in
      if \<not> is_section_valid self section_text
      then (Inr None, emit (Print (Skipping section_name (length section_text))) w)
      else
        (case call_groq_api self srv (emit (Print (Calling section_name)) w) of
           (Inl e, w') \<Rightarrow> (Inl e, w')
         | (Inr summary, w') \<Rightarrow>
             if truthy summary then (Inr summary, emit (Print (Summarized section_name)) w')
             else (Inr None, emit (Print (Failed section_name)) w')))"

text \<open>
  \<open>format_markdown_output\<close>: the lines appended for the items of the mapping, in the
  mapping's order. \<open>'>' in section_name\<close> tests for the character \<open>>\<close> anywhere in the
  key.
\<close>

fun output_lines :: "summaries \<Rightarrow> pystr list" where
  "output_lines [] = []"
| "output_lines ((section_name, summary) # rest) =
     (if of_char CHR ''>'' \<in> set section_name
      then str ''### '' @ section_name @ nl
      else str ''## '' @ section_name @ nl)
     # (summary @ nl)
     # output_lines rest"

definition format_markdown_output :: "summarizer \<Rightarrow> summaries \<Rightarrow> pystr" where
  "format_markdown_output self summaries = strip (join nl (output_lines summaries))"

text \<open>
  \<open>os.path.dirname\<close> on POSIX paths: the part up to the last slash, without its
  trailing slashes unless it consists of slashes only.
\<close>

definition dirname :: "pystr \<Rightarrow> pystr" where
  "dirname p =
     (let head = rev (dropWhile (\<lambda>c. c \<noteq> of_char CHR ''/'') (rev p)) in
      if head \<noteq> [] \<and> head \<noteq> replicate (length head) (of_char CHR ''/'')
      then rev (dropWhile (\<lambda>c. c = of_char CHR ''/'') (rev head))
      else head)"

text \<open>
  \<open>save_markdown\<close>. \<open>os.makedirs(os.path.dirname(filepath), exist_ok=True)\<close> stands before
  the \<open>try\<close>: for a path without directory part it is \<open>os.makedirs('')\<close>, which raises
  \<open>FileNotFoundError\<close>. Directories are not part of the model, so a directory part that is
  not empty is taken to exist or to be created. A write that the system refuses raises
  \<open>Exception(f"Failed to save markdown file: {e}")\<close>; the text of \<open>e\<close> is the operating
  system's and is left out of the message.
\<close>

definition save_markdown :: "env \<Rightarrow> pystr \<Rightarrow> pystr \<Rightarrow> world \<Rightarrow> (exn + unit) \<times> world" where
  "save_markdown E c filepath w =
     (if dirname filepath = [] then (Inl FileNotFoundError, w)
      else if writable E filepath
      then (Inr (), w\<lparr>files := (files w)(filepath \<mapsto> TextFile c)\<rparr>)
      else (Inl (Exception (str ''Failed to save markdown file: '')), w))"

text \<open>
  \<open>load_json_data\<close>. A file that holds no JSON raises
  \<open>Exception(f"Invalid JSON format: {e}")\<close>; the decoder's text \<open>e\<close> is left out.
\<close>

definition load_json_data :: "world \<Rightarrow> pystr \<Rightarrow> exn + sections" where
  "load_json_data w filepath =
     (case files w filepath of
        None \<Rightarrow> Inl (Exception (str ''JSON file not found: '' @ filepath))
      | Some (TextFile t) \<Rightarrow> Inl (Exception (str ''Invalid JSON format: ''))
      | Some (JsonFile d) \<Rightarrow> Inr d)"

text \<open>
  The loop \<open>for section_name, paragraphs in data.items()\<close> of \<open>process_all_sections\<close>,
  over the items still to visit, with the loop variables \<open>summaries\<close> and \<open>processed\<close>.
  \<open>summaries[section_name] = summary\<close> replaces the value of a key the mapping holds and
  appends a new key at the end.
\<close>

fun section_loop ::
  "summarizer \<Rightarrow> (nat \<Rightarrow> response) \<Rightarrow> nat \<Rightarrow> sections \<Rightarrow> summaries \<times> nat \<Rightarrow> world
     \<Rightarrow> (exn + summaries \<times> nat) \<times> world" where
  "section_loop self srv total_sections [] (summaries, processed) w =
     (Inr (summaries, processed), w)"
| "section_loop self srv total_sections ((section_name, paragraphs) # rest) (summaries, processed) w =
     (let w1 = emit (Print (Processing (processed + 1) total_sections section_name)) w in
      case summarize_section self srv section_name paragraphs w1 of
        (Inl e, w2) \<Rightarrow> (Inl e, w2)
      | (Inr summary, w2) \<Rightarrow>
          section_loop self srv total_sections rest
            (if truthy summary
             then (AList.update section_name (the summary) summaries, processed + 1)
             else (summaries, processed))
            (sleep (1 / 2) w2))"

definition process_all_sections ::
  "summarizer \<Rightarrow> env \<Rightarrow> pystr \<Rightarrow> pystr \<Rightarrow> world \<Rightarrow> (exn + summaries) \<times> world" where
  "process_all_sections self E input_file output_file w =
     (case load_json_data w input_file of
        Inl e \<Rightarrow> (Inl e, w)
      | Inr d \<Rightarrow>
          (case section_loop self (service E) (length d) d ([], 0) w of
             (Inl e, w1) \<Rightarrow> (Inl e, w1)
           | (Inr (summaries, processed), w1) \<Rightarrow>
               if summaries \<noteq> [] then
                 (case save_markdown E (format_markdown_output self summaries) output_file w1 of
                    (Inl e, w2) \<Rightarrow> (Inl e, w2)
                  | (Inr u, w2) \<Rightarrow> (Inr summaries, w2))
               else (Inr summaries, w1)))"

text \<open>
  \<open>load_environment\<close>: \<open>if not api_key\<close> holds for a variable that is unset and for one
  that is set to the empty string.
\<close>

definition missing_key_message :: pystr where
  "missing_key_message = str ''GROQ_API_KEY not found in environment variables. Please create a .env file with: GROQ_API_KEY=your_api_key_here''"

definition load_environment :: "env \<Rightarrow> exn + pystr" where
  "load_environment E =
     (case getenv_key E of
        None \<Rightarrow> Inl (Exception missing_key_message)
      | Some k \<Rightarrow> if k = [] then Inl (Exception missing_key_message) else Inr k)"

text \<open>\<open>main\<close> of summarizer.py; the result is the exit status.\<close>

definition main :: "env \<Rightarrow> world \<Rightarrow> int \<times> world" where
  "main E w =
     (case load_environment E of
        Inl e \<Rightarrow> (1, emit (Print (ErrorLine e)) w)
      | Inr k \<Rightarrow>
          (case process_all_sections (GroqSummarizer k) E
                  (str ''data/raw_wiki_content.json'') (str ''data/summarized_output.md'') w of
             (Inl e, w') \<Rightarrow> (1, emit (Print (ErrorLine e)) w')
           | (Inr summaries, w') \<Rightarrow> (if summaries \<noteq> [] then 0 else 1, w')))"

section \<open>WikipediaScraper\<close>

text \<open>\<open>format_output\<close>\<close>

fun format_lines :: "sections \<Rightarrow> pystr list" where
  "format_lines [] = []"
| "format_lines ((section, paragraphs) # rest) =
     (if paragraphs = [] then format_lines rest
      else (nl @ (if of_char CHR ''>'' \<in> set section then str ''###'' else str ''##'')
               @ str '' '' @ section)
           # map (\<lambda>para. nl @ para) paragraphs @ [] # format_lines rest)"

definition format_output :: "sections \<Rightarrow> pystr" where
  "format_output content_dict = strip (join nl (format_lines content_dict))"

text \<open>\<open>save_to_file\<close> and \<open>save_as_json\<close> write below the directory \<open>data\<close>.\<close>

definition save_to_file :: "env \<Rightarrow> pystr \<Rightarrow> pystr \<Rightarrow> world \<Rightarrow> (exn + unit) \<times> world" where
  "save_to_file E c filename w =
     (let filepath = str ''data/'' @ filename in
      if writable E filepath
      then (Inr (), w\<lparr>files := (files w)(filepath \<mapsto> TextFile c)\<rparr>)
      else (Inl (Exception (str ''Failed to save file: '')), w))"

definition save_as_json :: "env \<Rightarrow> sections \<Rightarrow> pystr \<Rightarrow> world \<Rightarrow> (exn + unit) \<times> world" where
  "save_as_json E content_dict filename w =
     (let filepath = str ''data/'' @ filename in
      if writable E filepath
      then (Inr (), w\<lparr>files := (files w)(filepath \<mapsto> JsonFile content_dict)\<rparr>)
      else (Inl (Exception (str ''Failed to save JSON file: '')), w))"

text \<open>
  \<open>scrape\<close>: one GET of the article, then the two files. The result is the formatted
  text with the extracted sections (\<open>self.content_dict\<close>).
\<close>

definition scrape :: "env \<Rightarrow> pystr \<Rightarrow> world \<Rightarrow> (exn + pystr \<times> sections) \<times> world" where
  "scrape E url w =
     (let w1 = emit (HttpGet url) w in
      case wikipedia E url of
        Unreachable \<Rightarrow> (Inl (Exception (str ''Failed to fetch page: '')), w1)
      | NoContentArea \<Rightarrow> (Inl (Exception (str ''Could not find main content area'')), w1)
      | Article content_dict \<Rightarrow>
          (let formatted_content = format_output content_dict in
           case save_to_file E formatted_content (str ''raw_wiki_content.txt'') w1 of
             (Inl e, w2) \<Rightarrow> (Inl e, w2)
           | (Inr u, w2) \<Rightarrow>
               (case save_as_json E content_dict (str ''raw_wiki_content.json'') w2 of
                  (Inl e, w3) \<Rightarrow> (Inl e, w3)
                | (Inr u', w3) \<Rightarrow> (Inr (formatted_content, content_dict), w3))))"

section \<open>WikiPipeline\<close>

definition json_file :: pystr where
  "json_file = str ''data/raw_wiki_content.json''"

definition markdown_file :: pystr where
  "markdown_file = str ''data/summarized_output.md''"

definition convert_txt_to_json :: "env \<Rightarrow> sections \<Rightarrow> world \<Rightarrow> (exn + unit) \<times> world" where
  "convert_txt_to_json E content_dict w =
     (if writable E json_file
      then (Inr (), w\<lparr>files := (files w)(json_file \<mapsto> JsonFile content_dict)\<rparr>)
      else (Inl (Exception (str ''Failed to save JSON file: '')), w))"

definition step_1_scraping :: "env \<Rightarrow> pystr \<Rightarrow> world \<Rightarrow> bool \<times> world" where
  "step_1_scraping E url w =
     (case scrape E url w of
        (Inl e, w1) \<Rightarrow> (False, emit (Print (ErrorLine e)) w1)
      | (Inr (formatted_content, content_dict), w1) \<Rightarrow>
          (case convert_txt_to_json E content_dict w1 of
             (Inl e, w2) \<Rightarrow> (False, emit (Print (ErrorLine e)) w2)
           | (Inr u, w2) \<Rightarrow> (True, w2)))"

definition step_2_load_api_key :: "env \<Rightarrow> world \<Rightarrow> (exn + pystr) \<times> world" where
  "step_2_load_api_key E w =
     (case load_environment E of
        Inl e \<Rightarrow> (Inl e, emit (Print (ErrorLine e)) w)
      | Inr k \<Rightarrow> (Inr k, w))"

definition step_3_summarization :: "env \<Rightarrow> pystr \<Rightarrow> world \<Rightarrow> bool \<times> world" where
  "step_3_summarization E k w =
     (if files w json_file = None
      then (False, emit (Print (ErrorLine (Exception (str ''JSON file not found: '' @ json_file)))) w)
      else
        (case process_all_sections (GroqSummarizer k) E json_file markdown_file w of
           (Inl e, w') \<Rightarrow> (False, emit (Print (ErrorLine e)) w')
         | (Inr summaries, w') \<Rightarrow> (summaries \<noteq> [], w')))"

text \<open>
  \<open>run_pipeline\<close>. The final report only prints and is left out, as is the handler of
  a keyboard interrupt.
\<close>

definition run_pipeline :: "env \<Rightarrow> pystr \<Rightarrow> world \<Rightarrow> bool \<times> world" where
  "run_pipeline E url w =
     (case step_1_scraping E url w of
        (False, w1) \<Rightarrow> (False, w1)
      | (True, w1) \<Rightarrow>
          (case step_2_load_api_key E (sleep 1 w1) of
             (Inl e, w2) \<Rightarrow> (False, emit (Print (ErrorLine e)) w2)
           | (Inr k, w2) \<Rightarrow> step_3_summarization E k (sleep 1 w2)))"

section \<open>Notions used to state the properties\<close>

text \<open>The section keys of the \<open>Processing\<close> lines of a trace: the sections visited, in order.\<close>

fun visit_of :: "event \<Rightarrow> pystr list" where
  "visit_of (Print (Processing i n k)) = [k]"
| "visit_of _ = []"

definition visited :: "event list \<Rightarrow> pystr list" where
  "visited tr = concat (map visit_of tr)"

text \<open>The section keys of the \<open>Summarized\<close> lines: the sections that got a summary, in order.\<close>

fun success_of :: "event \<Rightarrow> pystr list" where
  "success_of (Print (Summarized k)) = [k]"
| "success_of _ = []"

definition succeeded :: "event list \<Rightarrow> pystr list" where
  "succeeded tr = concat (map success_of tr)"

text \<open>
  A reply has the expected shape when, if it is an HTTP 200 with a JSON body, the
  content of the first choice can be read from it.
\<close>

fun expected_shape :: "response \<Rightarrow> bool" where
  "expected_shape (Http status_code (Json result)) =
     (if status_code = 200 then (case response_content result of Inl e \<Rightarrow> False | Inr s \<Rightarrow> True)
      else True)"
| "expected_shape _ = True"

text \<open>The path separator of the spec: a subsection key is one that contains \<open>" > "\<close>.\<close>

fun contains :: "pystr \<Rightarrow> pystr \<Rightarrow> bool" where
  "contains sub [] = (sub = [])"
| "contains sub (c # cs) = (prefix sub (c # cs) \<or> contains sub cs)"

definition is_subsection_key :: "pystr \<Rightarrow> bool" where
  "is_subsection_key k = contains (str '' > '') k"

text \<open>
  The rendering of one item as the code decides it: the heading line, a blank line, the
  summary and a blank line. The heading is of level 3 when the key contains the
  character \<open>>\<close>, of level 2 otherwise.
\<close>

definition section_block :: "pystr \<times> pystr \<Rightarrow> pystr" where
  "section_block item =
     (if of_char CHR ''>'' \<in> set (fst item) then str ''### '' else str ''## '')
     @ fst item @ nl @ nl @ snd item @ nl @ nl"

text \<open>
  The rendering of one item in the words of the spec: the heading is of level 3 for a
  subsection key, of level 2 otherwise.
\<close>

definition spec_block :: "pystr \<times> pystr \<Rightarrow> pystr" where
  "spec_block item =
     (if is_subsection_key (fst item) then str ''### '' else str ''## '')
     @ fst item @ nl @ nl @ snd item @ nl @ nl"

subsection \<open>Example inputs\<close>

definition long_paragraph :: pystr where
  "long_paragraph = str ''Alexander III of Macedon was a king of the ancient Greek kingdom of Macedon.''"

text \<open>A reply body of the expected shape, with one choice whose message has the content \<open>c\<close>.\<close>

definition completion :: "pystr \<Rightarrow> json" where
  "completion c =
     JObj [(str ''choices'', JArr [JObj [(str ''message'', JObj [(str ''content'', JStr c)])]])]"

text \<open>A reply body whose first choice has a message with the content \<open>null\<close>.\<close>

definition null_content :: json where
  "null_content =
     JObj [(str ''choices'',
            JArr [JObj [(str ''message'',
                         JObj [(str ''role'', JStr (str ''assistant'')), (str ''content'', JNull)])]])]"

definition article_url :: pystr where
  "article_url = str ''https://en.wikipedia.org/wiki/Alexander_the_Great''"

definition start :: world where
  "start = \<lparr>trace = [], files = Map.empty\<rparr>"

section \<open>Basic facts\<close>

lemma trace_emit [simp]: "trace (emit e w) = trace w @ [e]"
  by (simp add: emit_def)

lemma files_emit [simp]: "files (emit e w) = files w"
  by (simp add: emit_def)

lemma trace_sleep [simp]: "trace (sleep d w) = trace w @ [Sleep d]"
  by (simp add: sleep_def)

lemma files_sleep [simp]: "files (sleep d w) = files w"
  by (simp add: sleep_def)

lemma http_posts_emit [simp]:
  "http_posts (emit e w) = (if e = HttpPost then Suc (http_posts w) else http_posts w)"
  by (simp add: http_posts_def)

lemma http_posts_sleep [simp]: "http_posts (sleep d w) = http_posts w"
  by (simp add: sleep_def)

lemma http_posts_backoff [simp]: "http_posts (backoff self attempt w) = http_posts w"
  by (simp add: backoff_def)

lemma http_posts_files_update [simp]: "http_posts (w\<lparr>files := f\<rparr>) = http_posts w"
  by (simp add: http_posts_def)

lemma files_backoff [simp]: "files (backoff self attempt w) = files w"
  by (simp add: backoff_def)

lemma visited_append [simp]: "visited (a @ b) = visited a @ visited b"
  by (simp add: visited_def)

lemma visited_Nil [simp]: "visited [] = []"
  by (simp add: visited_def)

lemma visited_Cons [simp]: "visited (e # tr) = visit_of e @ visited tr"
  by (simp add: visited_def)

lemma succeeded_append [simp]: "succeeded (a @ b) = succeeded a @ succeeded b"
  by (simp add: succeeded_def)

lemma succeeded_Nil [simp]: "succeeded [] = []"
  by (simp add: succeeded_def)

lemma succeeded_Cons [simp]: "succeeded (e # tr) = success_of e @ succeeded tr"
  by (simp add: succeeded_def)

lemma backoff_quiet [simp]:
  "visited (trace (backoff self a w)) = visited (trace w)"
  "succeeded (trace (backoff self a w)) = succeeded (trace w)"
  by (simp_all add: backoff_def)

lemma upt_3: "3 \<le> n \<Longrightarrow> [0..<n] = 0 # 1 # 2 # [3..<n]"
  by (simp add: upt_conv_Cons numeral_3_eq_3)

lemma upt_0_3: "[0..<3] = [0, 1, 2]"
  by (simp add: upt_3)

text \<open>The equations that evaluate a run on a concrete input.\<close>

lemmas run_simps = upt_0_3
  summarize_section_def prepare_section_text_def is_section_valid_def strip_def lstrip_def
  rstrip_def is_space_def str_def GroqSummarizer_def call_groq_api_def Let_def
  response_content_def emit_def sleep_def backoff_def http_posts_def nl_def
  long_paragraph_def completion_def null_content_def start_def

subsection \<open>Trimming\<close>

lemma rstrip_idem: "rstrip (rstrip s) = rstrip s"
  by (simp add: rstrip_def)

lemma rstrip_take: "rstrip s = take (length s - length (takeWhile is_space (rev s))) s"
  by (simp add: rstrip_def dropWhile_eq_drop rev_drop)

lemma hd_rstrip: "rstrip s \<noteq> [] \<Longrightarrow> hd (rstrip s) = hd s"
  by (metis hd_take rstrip_take take_eq_Nil not_gr_zero)

lemma lstrip_rstrip:
  assumes "s = [] \<or> \<not> is_space (hd s)"
  shows "lstrip (rstrip s) = rstrip s"
proof (cases "rstrip s")
  case Nil
  then show ?thesis by (simp add: lstrip_def)
next
  case (Cons c cs)
  then have "s \<noteq> []" by (auto simp: rstrip_def)
  moreover from Cons have "hd (rstrip s) = hd s"
    using hd_rstrip [of s] by simp
  ultimately have "\<not> is_space c" using assms Cons by simp
  then show ?thesis using Cons by (simp add: lstrip_def)
qed

lemma lstrip_hd: "lstrip s = [] \<or> \<not> is_space (hd (lstrip s))"
  unfolding lstrip_def by (metis hd_dropWhile)

lemma strip_idem: "strip (strip s) = strip s"
  using lstrip_rstrip [OF lstrip_hd, of s] by (simp add: strip_def rstrip_idem)

lemma rstrip_append:
  "rstrip (a @ b) = (if \<forall>c\<in>set b. is_space c then rstrip a else a @ rstrip b)"
  by (simp add: rstrip_def dropWhile_append)

lemma rstrip_append_nonspace: "\<not> (\<forall>c\<in>set b. is_space c) \<Longrightarrow> rstrip (a @ b) = a @ rstrip b"
  by (auto simp add: rstrip_append)

lemma rstrip_append_space: "\<forall>c\<in>set b. is_space c \<Longrightarrow> rstrip (a @ b) = rstrip a"
  by (simp add: rstrip_append)

lemma rstrip_eq_Nil: "rstrip s = [] \<longleftrightarrow> (\<forall>c\<in>set s. is_space c)"
  by (simp add: rstrip_def)

lemma rstrip_last: "s \<noteq> [] \<Longrightarrow> \<not> is_space (last s) \<Longrightarrow> rstrip s = s"
  by (cases s rule: rev_cases) (simp_all add: rstrip_def)

lemma strip_hd: "s \<noteq> [] \<Longrightarrow> \<not> is_space (hd s) \<Longrightarrow> strip s = rstrip s"
  by (cases s) (simp_all add: strip_def lstrip_def)

lemma is_space_nl [simp]: "\<forall>c\<in>set nl. is_space c"
  by (simp add: nl_def is_space_def)

lemma gt_not_space: "\<not> is_space (of_char CHR ''>'')"
  by (simp add: is_space_def)

lemma strip_append_nl: "strip (s @ nl) = strip s"
proof (cases "\<forall>c\<in>set s. is_space c")
  case True
  then have "lstrip (s @ nl) = []" and "lstrip s = []"
    by (simp_all add: lstrip_def dropWhile_append)
  then show ?thesis by (simp add: strip_def)
next
  case False
  then have "lstrip (s @ nl) = lstrip s @ nl"
    by (auto simp add: lstrip_def dropWhile_append)
  then show ?thesis by (simp add: strip_def rstrip_append)
qed

section \<open>The section summarizer\<close>

text \<open>
  C2. A section whose paragraphs, joined by blank lines and trimmed, are shorter than
  \<open>min_section_length\<close> is skipped: \<open>summarize_section\<close> returns \<open>None\<close> and sends no
  request to the completion service.
\<close>

theorem short_section_skipped:
  assumes "length (prepare_section_text paragraphs) < min_section_length self"
  shows "fst (summarize_section self srv section_name paragraphs w) = Inr None \<and>
         http_posts (snd (summarize_section self srv section_name paragraphs w)) = http_posts w"
  using assms
  by (simp add: summarize_section_def is_section_valid_def prepare_section_text_def strip_idem)

theorem short_section_skipped_witness:
  "length (prepare_section_text [str ''Short.'']) < min_section_length (GroqSummarizer (str ''key'')) \<and>
   fst (summarize_section (GroqSummarizer (str ''key'')) (\<lambda>k. Timeout) (str ''History > Early Life'')
          [str ''Short.''] start) = Inr None \<and>
   http_posts (snd (summarize_section (GroqSummarizer (str ''key'')) (\<lambda>k. Timeout) (str ''History > Early Life'')
          [str ''Short.''] start)) = 0"
proof -
  have h: "length (prepare_section_text [str ''Short.'']) < min_section_length (GroqSummarizer (str ''key''))"
    by (simp add: prepare_section_text_def strip_def lstrip_def rstrip_def is_space_def str_def GroqSummarizer_def)
  show ?thesis
    using h short_section_skipped [OF h, of "\<lambda>k. Timeout" "str ''History > Early Life''" start]
    by (simp add: http_posts_def start_def)
qed

lemma attempts_all_500:
  assumes "\<forall>k. \<exists>b. srv k = Http 500 b"
  shows "fst (attempts self srv as w) = Inr None \<and>
         http_posts (snd (attempts self srv as w)) = http_posts w + length as"
proof (induction as arbitrary: w)
  case Nil
  show ?case by simp
next
  case (Cons a as)
  from assms obtain b where b: "srv (http_posts w) = Http 500 b" by blast
  show ?case
    using Cons.IH [of "backoff self a (emit HttpPost w)"] b by (simp add: Let_def)
qed

text \<open>
  C3. When the service answers every request with HTTP 500, \<open>call_groq_api\<close> returns
  \<open>None\<close> after exactly \<open>max_retries\<close> requests.
\<close>

theorem always_500_exhausts_retries:
  assumes "\<forall>k. \<exists>b. srv k = Http 500 b"
  shows "fst (call_groq_api self srv w) = Inr None \<and>
         http_posts (snd (call_groq_api self srv w)) = http_posts w + max_retries self"
  using attempts_all_500 [OF assms, of self "[0..<max_retries self]" w]
  by (simp add: call_groq_api_def)

theorem always_500_exhausts_retries_witness:
  "(\<forall>k::nat. \<exists>b. Http 500 NotJson = Http 500 b) \<and>
   fst (call_groq_api (GroqSummarizer (str ''key'')) (\<lambda>k. Http 500 NotJson) start) = Inr None \<and>
   http_posts (snd (call_groq_api (GroqSummarizer (str ''key'')) (\<lambda>k. Http 500 NotJson) start)) = 3"
  using always_500_exhausts_retries [of "\<lambda>k. Http 500 NotJson" "GroqSummarizer (str ''key'')" start]
  by (simp add: GroqSummarizer_def http_posts_def start_def)

text \<open>
  C4. When the service answers the first two requests with HTTP 429 and the third with
  HTTP 200 and a body of the expected shape, \<open>call_groq_api\<close> (with at least three
  attempts allowed, as by default) sends exactly three requests, sleeps
  \<open>base_delay * 2 ^ 0\<close> after the first and \<open>base_delay * 2 ^ 1\<close> after the second, and
  returns the trimmed content of the first choice's message.
\<close>

theorem rate_limited_twice_then_ok:
  assumes "3 \<le> max_retries self"
    and "srv (http_posts w) = Http 429 b0"
    and "srv (http_posts w + 1) = Http 429 b1"
    and "srv (http_posts w + 2) = Http 200 (Json (JObj items))"
    and "map_of items (str ''choices'') = Some (JArr (JObj choice # choices))"
    and "map_of choice (str ''message'') = Some (JObj message)"
    and "map_of message (str ''content'') = Some (JStr c)"
  shows "call_groq_api self srv w =
           (Inr (Some (strip c)),
            w\<lparr>trace := trace w @
               [HttpPost, Sleep (of_nat (base_delay self * 2 ^ 0)),
                HttpPost, Sleep (of_nat (base_delay self * 2 ^ 1)),
                HttpPost]\<rparr>)"
  using assms
  by (simp add: call_groq_api_def upt_3 Let_def response_content_def emit_def sleep_def http_posts_def)

theorem rate_limited_twice_then_ok_witness:
  "call_groq_api (GroqSummarizer (str ''key''))
     (\<lambda>k. if k < 2 then Http 429 NotJson else Http 200 (Json (completion (str '' A summary. ''))))
     start =
   (Inr (Some (str ''A summary.'')),
    \<lparr>trace = [HttpPost, Sleep 1, HttpPost, Sleep 2, HttpPost], files = Map.empty\<rparr>)"
proof -
  let ?srv = "\<lambda>k::nat. if k < 2 then Http 429 NotJson
                        else Http 200 (Json (completion (str '' A summary. '')))"
  have "call_groq_api (GroqSummarizer (str ''key'')) ?srv start =
           (Inr (Some (strip (str '' A summary. ''))),
            start\<lparr>trace := trace start @
               [HttpPost, Sleep (of_nat (base_delay (GroqSummarizer (str ''key'')) * 2 ^ 0)),
                HttpPost, Sleep (of_nat (base_delay (GroqSummarizer (str ''key'')) * 2 ^ 1)),
                HttpPost]\<rparr>)"
    by (rule rate_limited_twice_then_ok [where ?b0.0 = NotJson and ?b1.0 = NotJson
          and choice = "[(str ''message'', JObj [(str ''content'', JStr (str '' A summary. ''))])]"
          and choices = "[]" and c = "str '' A summary. ''"
          and items = "[(str ''choices'',
                 JArr [JObj [(str ''message'', JObj [(str ''content'', JStr (str '' A summary. ''))])]])]"
          and message = "[(str ''content'', JStr (str '' A summary. ''))]"])
       (simp_all add: GroqSummarizer_def http_posts_def str_def start_def completion_def)
  then show ?thesis
    by (simp add: GroqSummarizer_def strip_def lstrip_def rstrip_def is_space_def str_def start_def)
qed

section \<open>The batch orchestrator\<close>

lemma attempts_quiet:
  "visited (trace (snd (attempts self srv as w))) = visited (trace w) \<and>
   succeeded (trace (snd (attempts self srv as w))) = succeeded (trace w) \<and>
   files (snd (attempts self srv as w)) = files w"
proof (induction as arbitrary: w)
  case Nil
  show ?case by simp
next
  case (Cons a as)
  show ?case
    by (simp add: Let_def Cons.IH split: response.split body.split sum.split)
qed

lemma attempts_returns:
  assumes "\<forall>k. expected_shape (srv k)"
  shows "\<exists>r. fst (attempts self srv as w) = Inr r"
proof (induction as arbitrary: w)
  case Nil
  show ?case by simp
next
  case (Cons a as)
  from assms have "expected_shape (srv (http_posts w))" by blast
  then show ?case
    by (auto simp add: Let_def Cons.IH split: response.split body.split sum.split)
qed

lemma summarize_section_quiet:
  "visited (trace (snd (summarize_section self srv name ps w))) = visited (trace w) \<and>
   files (snd (summarize_section self srv name ps w)) = files w"
  using attempts_quiet [of self srv "[0..<max_retries self]" "emit (Print (Calling name)) w"]
  by (auto simp add: summarize_section_def call_groq_api_def Let_def split: prod.split sum.split)

lemma summarize_section_success:
  assumes "summarize_section self srv name ps w = (Inr r, w')"
  shows "succeeded (trace w') = succeeded (trace w) @ (if truthy r then [name] else [])"
  using assms attempts_quiet [of self srv "[0..<max_retries self]" "emit (Print (Calling name)) w"]
  by (auto simp add: summarize_section_def call_groq_api_def Let_def split: prod.splits sum.splits if_splits)

lemma summarize_section_returns:
  assumes "\<forall>k. expected_shape (srv k)"
  shows "\<exists>r. fst (summarize_section self srv name ps w) = Inr r"
  using attempts_returns [OF assms, of self "[0..<max_retries self]" "emit (Print (Calling name)) w"]
  by (auto simp add: summarize_section_def call_groq_api_def Let_def split: prod.splits sum.splits)

text \<open>The loop writes no file, whether it returns or raises.\<close>

lemma section_loop_files:
  "files (snd (section_loop self srv n d (acc, p) w)) = files w"
proof (induction d arbitrary: acc p w)
  case Nil
  show ?case by simp
next
  case (Cons item d)
  obtain name ps where item: "item = (name, ps)" by (cases item)
  let ?w1 = "emit (Print (Processing (p + 1) n name)) w"
  obtain r w2 where s: "summarize_section self srv name ps ?w1 = (r, w2)"
    by (cases "summarize_section self srv name ps ?w1")
  have "files w2 = files w"
    using summarize_section_quiet [of self srv name ps ?w1] s by simp
  then show ?case
    using item s Cons.IH by (simp add: Let_def split: sum.split)
qed

text \<open>
  A run of the loop that returns has visited the remaining sections in their order, and
  has appended to the summaries the keys of the sections that got a summary, in that
  order.
\<close>

lemma section_loop_order:
  assumes "section_loop self srv n d (acc, p) w = (Inr (out, p'), w')"
    and "distinct (map fst acc @ map fst d)"
  shows "visited (trace w') = visited (trace w) @ map fst d \<and>
         (\<exists>S. succeeded (trace w') = succeeded (trace w) @ S \<and>
              map fst out = map fst acc @ S \<and> subseq S (map fst d))"
  using assms
proof (induction d arbitrary: acc p w)
  case Nil
  then show ?case by simp
next
  case (Cons item d)
  obtain name ps where item: "item = (name, ps)" by (cases item)
  let ?w1 = "emit (Print (Processing (p + 1) n name)) w"
  obtain r w2 where s: "summarize_section self srv name ps ?w1 = (r, w2)"
    by (cases "summarize_section self srv name ps ?w1")
  from Cons.prems(1) item s obtain summary where r: "r = Inr summary"
    by (cases r) (simp_all add: Let_def)
  let ?acc' = "if truthy summary then AList.update name (the summary) acc else acc"
  let ?p' = "if truthy summary then p + 1 else p"
  from Cons.prems(1) item s r
  have loop: "section_loop self srv n d (?acc', ?p') (sleep (1 / 2) w2) = (Inr (out, p'), w')"
    by (simp add: Let_def split: if_splits)
  from Cons.prems(2) item have fresh: "name \<notin> set (map fst acc)"
    by auto
  have keys: "map fst ?acc' = map fst acc @ (if truthy summary then [name] else [])"
    using fresh by (simp add: update_keys)
  have "distinct (map fst ?acc' @ map fst d)"
    using Cons.prems(2) item keys by auto
  from Cons.IH [OF loop this]
  obtain S where ih: "visited (trace w') = visited (trace (sleep (1 / 2) w2)) @ map fst d"
    "succeeded (trace w') = succeeded (trace (sleep (1 / 2) w2)) @ S"
    "map fst out = map fst ?acc' @ S" "subseq S (map fst d)"
    by auto
  have v: "visited (trace w2) = visited (trace w) @ [name]"
    using summarize_section_quiet [of self srv name ps ?w1] s by simp
  have su: "succeeded (trace w2) = succeeded (trace w) @ (if truthy summary then [name] else [])"
    using summarize_section_success [of self srv name ps ?w1 summary w2] s r by simp
  let ?S = "(if truthy summary then [name] else []) @ S"
  have "succeeded (trace w') = succeeded (trace w) @ ?S"
    using ih(2) su by simp
  moreover have "map fst out = map fst acc @ ?S"
    using ih(3) keys by simp
  moreover have "subseq ?S (map fst (item # d))"
    using ih(4) item by auto
  ultimately show ?case
    using ih(1) v item by (intro conjI exI [of _ ?S]) simp_all
qed

lemma section_loop_returns:
  assumes "\<forall>k. expected_shape (srv k)"
  shows "\<exists>out p'. fst (section_loop self srv n d (acc, p) w) = Inr (out, p')"
proof (induction d arbitrary: acc p w)
  case Nil
  show ?case by simp
next
  case (Cons item d)
  obtain name ps where item: "item = (name, ps)" by (cases item)
  let ?w1 = "emit (Print (Processing (p + 1) n name)) w"
  from summarize_section_returns [OF assms, of self name ps ?w1]
  obtain r w2 where s: "summarize_section self srv name ps ?w1 = (Inr r, w2)"
    by (cases "summarize_section self srv name ps ?w1") auto
  show ?case
    using item s Cons.IH by (simp add: Let_def)
qed

text \<open>
  While every HTTP 200 reply has the expected shape, the loop returns, visits every
  section once in the order of the input, and the keys of its summaries are the
  sections that got a summary, a subsequence of the input's keys.
\<close>

lemma sections_visited_in_order:
  assumes "distinct (map fst d)" and "\<forall>k. expected_shape (srv k)"
  shows "\<exists>out p w'. section_loop self srv n d ([], 0) w = (Inr (out, p), w') \<and>
           visited (trace w') = visited (trace w) @ map fst d \<and>
           succeeded (trace w') = succeeded (trace w) @ map fst out \<and>
           subseq (map fst out) (map fst d)"
proof -
  from section_loop_returns [OF assms(2), of self n d "[]" 0 w]
  obtain out p w' where l: "section_loop self srv n d ([], 0) w = (Inr (out, p), w')"
    by (cases "section_loop self srv n d ([], 0) w") auto
  from section_loop_order [OF l] assms(1) show ?thesis
    using l by auto
qed

lemma sections_visited_in_order_example:
  "\<exists>p w'. section_loop (GroqSummarizer (str ''key'')) (\<lambda>k. Http 200 (Json (completion (str ''A summary.'')))) 3
       [(str ''History'', [long_paragraph]), (str ''History > Early Life'', [str ''Short.'']),
        (str ''Legacy'', [long_paragraph])] ([], 0) start =
       (Inr ([(str ''History'', str ''A summary.''), (str ''Legacy'', str ''A summary.'')], p), w') \<and>
     visited (trace w') = [str ''History'', str ''History > Early Life'', str ''Legacy''] \<and>
     succeeded (trace w') = [str ''History'', str ''Legacy'']"
  using sections_visited_in_order [of
     "[(str ''History'', [long_paragraph]), (str ''History > Early Life'', [str ''Short.'']),
       (str ''Legacy'', [long_paragraph])]"
     "\<lambda>k. Http 200 (Json (completion (str ''A summary.'')))" "GroqSummarizer (str ''key'')" 3 start]
  by (simp add: run_simps)

lemma strip_fixed_last:
  assumes "strip s = s" and "s \<noteq> []"
  shows "\<not> is_space (last s)"
proof -
  let ?t = "dropWhile is_space (rev (lstrip s))"
  from assms have r: "rev ?t = s" by (simp add: strip_def rstrip_def)
  with assms(2) have "?t \<noteq> []" by (metis rev.simps(1))
  then have "\<not> is_space (hd ?t)" by (rule hd_dropWhile)
  moreover have "last s = hd ?t"
    using r \<open>?t \<noteq> []\<close> by (metis last_rev)
  ultimately show ?thesis by simp
qed

text \<open>
  The summaries the loop stores are trimmed and not empty, so the last of them does not
  end in whitespace.
\<close>

lemma response_content_trimmed: "response_content j = Inr s \<Longrightarrow> strip s = s"
proof -
  assume a: "response_content j = Inr s"
  then obtain c where "strip_method c = Inr s"
    by (auto simp add: response_content_def split: sum.splits)
  then show ?thesis by (cases c) (auto simp add: strip_idem)
qed

lemma attempts_trimmed:
  "fst (attempts self srv as w) = Inr (Some s) \<Longrightarrow> strip s = s"
proof (induction as arbitrary: w)
  case Nil
  then show ?case by simp
next
  case (Cons a as)
  then show ?case
    by (auto simp add: Let_def response_content_trimmed split: response.splits body.splits sum.splits if_splits)
qed

lemma summarize_section_trimmed:
  assumes "fst (summarize_section self srv name ps w) = Inr r" and "truthy r"
  shows "strip (the r) = the r \<and> the r \<noteq> []"
proof -
  from assms obtain s where r: "r = Some s" "s \<noteq> []" by (cases r) auto
  let ?c = "attempts self srv [0..<max_retries self] (emit (Print (Calling name)) w)"
  from assms(1) r have "fst ?c = Inr (Some s)"
    by (auto simp add: summarize_section_def call_groq_api_def Let_def split: prod.splits sum.splits if_splits)
  then have "strip s = s" by (rule attempts_trimmed)
  with r show ?thesis by simp
qed

lemma section_loop_trimmed:
  assumes "section_loop self srv n d (acc, p) w = (Inr (out, p'), w')"
    and "\<forall>v\<in>snd ` set acc. strip v = v \<and> v \<noteq> []"
  shows "\<forall>v\<in>snd ` set out. strip v = v \<and> v \<noteq> []"
  using assms
proof (induction d arbitrary: acc p w)
  case Nil
  then show ?case by simp
next
  case (Cons item d)
  obtain name ps where item: "item = (name, ps)" by (cases item)
  let ?w1 = "emit (Print (Processing (p + 1) n name)) w"
  obtain r w2 where s: "summarize_section self srv name ps ?w1 = (r, w2)"
    by (cases "summarize_section self srv name ps ?w1")
  from Cons.prems(1) item s obtain summary where r: "r = Inr summary"
    by (cases r) (simp_all add: Let_def)
  let ?acc' = "if truthy summary then AList.update name (the summary) acc else acc"
  let ?p' = "if truthy summary then p + 1 else p"
  from Cons.prems(1) item s r
  have loop: "section_loop self srv n d (?acc', ?p') (sleep (1 / 2) w2) = (Inr (out, p'), w')"
    by (simp add: Let_def split: if_splits)
  have "\<forall>v\<in>snd ` set ?acc'. strip v = v \<and> v \<noteq> []"
  proof (cases "truthy summary")
    case True
    then have g: "strip (the summary) = the summary \<and> the summary \<noteq> []"
      using summarize_section_trimmed [of self srv name ps ?w1 summary] s r by simp
    have "set (AList.update name (the summary) acc) \<subseteq> insert (name, the summary) (set acc)"
      by (induction acc) auto
    with g Cons.prems(2) True show ?thesis by fastforce
  next
    case False
    with Cons.prems(2) show ?thesis by simp
  qed
  from Cons.IH [OF loop this] show ?case .
qed

lemma stored_summaries_trimmed:
  assumes "section_loop self srv n d ([], 0) w = (Inr (out, p), w')" and "out \<noteq> []"
  shows "snd (last out) \<noteq> [] \<and> \<not> is_space (last (snd (last out)))"
proof -
  have "\<forall>v\<in>snd ` set out. strip v = v \<and> v \<noteq> []"
    using section_loop_trimmed [OF assms(1)] by simp
  moreover have "snd (last out) \<in> snd ` set out"
    using assms(2) by simp
  ultimately show ?thesis
    using strip_fixed_last by blast
qed

text \<open>
  C5. The claim: the orchestrator visits every section once, in the order of the input,
  and the keys of the output are the sections that got a summary, in that order. The
  code leaves the loop at the first HTTP 200 reply whose content cannot be read: with
  two sections and a service whose replies carry the content \<open>null\<close>, the loop raises
  \<open>AttributeError\<close> in the first section and never visits the second.
\<close>

theorem second_section_never_visited:
  "section_loop (GroqSummarizer (str ''key'')) (\<lambda>k. Http 200 (Json null_content)) 2
       [(str ''History'', [long_paragraph]), (str ''Legacy'', [long_paragraph])] ([], 0) start =
     (Inl AttributeError,
      \<lparr>trace = [Print (Processing 1 2 (str ''History'')), Print (Calling (str ''History'')), HttpPost],
       files = Map.empty\<rparr>) \<and>
   visited [Print (Processing 1 2 (str ''History'')), Print (Calling (str ''History'')), HttpPost] =
     [str ''History'']"
  by (simp add: run_simps)

text \<open>
  C1. The claim: a failure while one section is summarized, also the failure to read
  \<open>choices[0].message.content\<close> from an HTTP 200 reply, only leaves that section out
  of the output, and the remaining sections are still visited. The code has no handler
  for that failure: with three sections, a first reply of the expected shape and a
  second reply with the content \<open>null\<close>, \<open>process_all_sections\<close> raises
  \<open>AttributeError\<close> in the second section, never visits the third, and writes no
  file, so the summary of the first section is lost.
\<close>

theorem unreadable_reply_aborts_batch:
  "process_all_sections (GroqSummarizer (str ''key''))
     \<lparr>getenv_key = Some (str ''key''),
      service = (\<lambda>k. if k = 0 then Http 200 (Json (completion (str ''A summary.'')))
                      else Http 200 (Json null_content)),
      wikipedia = (\<lambda>u. Unreachable), writable = (\<lambda>p. True)\<rparr>
     json_file markdown_file
     \<lparr>trace = [],
      files = [json_file \<mapsto> JsonFile [(str ''History'', [long_paragraph]),
                                        (str ''Conquests'', [long_paragraph]),
                                        (str ''Legacy'', [long_paragraph])]]\<rparr> =
   (Inl AttributeError,
    \<lparr>trace = [Print (Processing 1 3 (str ''History'')), Print (Calling (str ''History'')), HttpPost,
              Print (Summarized (str ''History'')), Sleep (1 / 2),
              Print (Processing 2 3 (str ''Conquests'')), Print (Calling (str ''Conquests'')), HttpPost],
     files = [json_file \<mapsto> JsonFile [(str ''History'', [long_paragraph]),
                                        (str ''Conquests'', [long_paragraph]),
                                        (str ''Legacy'', [long_paragraph])]]\<rparr>)"
  by (simp add: process_all_sections_def load_json_data_def run_simps)

text \<open>
  When the loop over the sections returns with no summary recorded (as it does for an
  empty input and for sections that are all too short), \<open>process_all_sections\<close> returns
  the empty mapping and leaves the files as they were, \<open>main\<close> returns the exit status 1
  and step 3 of the pipeline returns \<open>False\<close>.
\<close>

lemma loop_without_summaries:
  assumes "getenv_key E = Some k" and "k \<noteq> []"
    and "files w json_file = Some (JsonFile d)"
    and "section_loop (GroqSummarizer k) (service E) (length d) d ([], 0) w = (Inr ([], p), w1)"
  shows "process_all_sections (GroqSummarizer k) E json_file markdown_file w = (Inr [], w1) \<and>
         files w1 = files w \<and>
         main E w = (1, w1) \<and>
         step_3_summarization E k w = (False, w1)"
proof -
  have p: "process_all_sections (GroqSummarizer k) E json_file markdown_file w = (Inr [], w1)"
    using assms(3,4) by (simp add: process_all_sections_def load_json_data_def)
  have f: "files w1 = files w"
    using section_loop_files [of "GroqSummarizer k" "service E" "length d" d "[]" 0 w] assms(4)
    by simp
  have m: "main E w = (1, w1)"
    using assms(1,2) p by (simp add: main_def load_environment_def json_file_def markdown_file_def)
  have s: "step_3_summarization E k w = (False, w1)"
    using assms(3) p by (simp add: step_3_summarization_def)
  from p f m s show ?thesis by simp
qed

lemma loop_without_summaries_example:
  "main \<lparr>getenv_key = Some (str ''key''), service = (\<lambda>k. Timeout), wikipedia = (\<lambda>u. Unreachable),
         writable = (\<lambda>p. True)\<rparr>
        \<lparr>trace = [], files = [json_file \<mapsto> JsonFile []]\<rparr> =
     (1, \<lparr>trace = [], files = [json_file \<mapsto> JsonFile []]\<rparr>) \<and>
   main \<lparr>getenv_key = Some (str ''key''), service = (\<lambda>k. Timeout), wikipedia = (\<lambda>u. Unreachable),
         writable = (\<lambda>p. True)\<rparr>
        \<lparr>trace = [], files = [json_file \<mapsto> JsonFile [(str ''History > Early Life'', [str ''Short.''])]]\<rparr> =
     (1, \<lparr>trace = [Print (Processing 1 1 (str ''History > Early Life'')),
                    Print (Skipping (str ''History > Early Life'') 6), Sleep (1 / 2)],
          files = [json_file \<mapsto> JsonFile [(str ''History > Early Life'', [str ''Short.''])]]\<rparr>)"
proof -
  let ?E = "\<lparr>getenv_key = Some (str ''key''), service = (\<lambda>k. Timeout), wikipedia = (\<lambda>u. Unreachable),
         writable = (\<lambda>p. True)\<rparr>"
  let ?w = "\<lparr>trace = [], files = [json_file \<mapsto> JsonFile []]\<rparr>"
  let ?d = "[(str ''History > Early Life'', [str ''Short.''])]"
  let ?v = "\<lparr>trace = [], files = [json_file \<mapsto> JsonFile ?d]\<rparr>"
  let ?v1 = "\<lparr>trace = [Print (Processing 1 1 (str ''History > Early Life'')),
                    Print (Skipping (str ''History > Early Life'') 6), Sleep (1 / 2)],
          files = [json_file \<mapsto> JsonFile ?d]\<rparr>"
  have l: "section_loop (GroqSummarizer (str ''key'')) (service ?E) (length ?d) ?d ([], 0) ?v = (Inr ([], 0), ?v1)"
    by (simp add: run_simps)
  have a: "main ?E ?w = (1, ?w)"
    using loop_without_summaries [of ?E "str ''key''" ?w "[]" 0 ?w] by (simp add: str_def)
  have b: "main ?E ?v = (1, ?v1)"
    using loop_without_summaries [of ?E "str ''key''" ?v ?d 0 ?v1, OF _ _ _ l] by (simp add: str_def)
  from a b show ?thesis by simp
qed

text \<open>
  C7. The claim: when no section is summarized, the orchestrator returns an empty
  mapping, writes no file and the run is reported as unsuccessful, without an exception
  passing the batch. The code returns the empty mapping only when the loop returns:
  with a single section and a reply with the content \<open>null\<close>, no section is summarized
  and \<open>process_all_sections\<close> raises \<open>AttributeError\<close> instead of returning.
\<close>

theorem only_section_unreadable:
  "process_all_sections (GroqSummarizer (str ''key''))
     \<lparr>getenv_key = Some (str ''key''), service = (\<lambda>k. Http 200 (Json null_content)),
      wikipedia = (\<lambda>u. Unreachable), writable = (\<lambda>p. True)\<rparr>
     json_file markdown_file
     \<lparr>trace = [], files = [json_file \<mapsto> JsonFile [(str ''History'', [long_paragraph])]]\<rparr> =
   (Inl AttributeError,
    \<lparr>trace = [Print (Processing 1 1 (str ''History'')), Print (Calling (str ''History'')), HttpPost],
     files = [json_file \<mapsto> JsonFile [(str ''History'', [long_paragraph])]]\<rparr>) \<and>
   succeeded [Print (Processing 1 1 (str ''History'')), Print (Calling (str ''History'')), HttpPost] = []"
  by (simp add: process_all_sections_def load_json_data_def run_simps)

text \<open>\<open>save_markdown\<close> on a path without directory part raises before it writes.\<close>

lemma save_markdown_without_directory:
  "dirname (str ''data/summarized_output.md'') = str ''data'' \<and>
   save_markdown E c (str ''summarized_output.md'') w = (Inl FileNotFoundError, w)"
  by (simp add: save_markdown_def dirname_def str_def)

text \<open>
  The end-to-end scenario of the spec: a long section and a short subsection, with a
  service that answers every request with the same summary.
\<close>

lemma end_to_end_example:
  "process_all_sections (GroqSummarizer (str ''key''))
     \<lparr>getenv_key = Some (str ''key''),
      service = (\<lambda>k. Http 200 (Json (completion (str ''A summary.'')))),
      wikipedia = (\<lambda>u. Unreachable), writable = (\<lambda>p. True)\<rparr>
     json_file markdown_file
     \<lparr>trace = [],
      files = [json_file \<mapsto> JsonFile [(str ''History'', [long_paragraph]),
                                        (str ''History > Early Life'', [str ''Short.''])]]\<rparr> =
   (Inr [(str ''History'', str ''A summary.'')],
    \<lparr>trace = [Print (Processing 1 2 (str ''History'')), Print (Calling (str ''History'')), HttpPost,
              Print (Summarized (str ''History'')), Sleep (1 / 2),
              Print (Processing 2 2 (str ''History > Early Life'')),
              Print (Skipping (str ''History > Early Life'') 6), Sleep (1 / 2)],
     files = [json_file \<mapsto> JsonFile [(str ''History'', [long_paragraph]),
                                        (str ''History > Early Life'', [str ''Short.''])],
              markdown_file \<mapsto> TextFile (str ''## History'' @ nl @ nl @ str ''A summary.'')]\<rparr>)"
  by (simp add: process_all_sections_def load_json_data_def save_markdown_def dirname_def
      format_markdown_output_def json_file_def markdown_file_def run_simps)

section \<open>The credential\<close>

lemma load_environment_missing:
  "getenv_key E = None \<or> getenv_key E = Some [] \<Longrightarrow>
   load_environment E = Inl (Exception missing_key_message)"
  by (auto simp add: load_environment_def)

lemma step_1_scraping_posts: "http_posts (snd (step_1_scraping E url w)) = http_posts w"
  by (simp add: step_1_scraping_def scrape_def save_to_file_def save_as_json_def
      convert_txt_to_json_def Let_def split: page.split)

text \<open>
  C8, as amended. When the API key is unset or empty, \<open>main\<close> of summarizer.py prints
  the configuration error with its message and returns 1, and that print is its only
  effect; \<open>run_pipeline\<close> returns \<open>False\<close> and sends no request to the completion
  service. The pipeline fetches the article before it looks for the key; when that
  first step succeeds, the pipeline sleeps, prints the configuration error in step 2
  and again in its own handler, and does nothing else.
\<close>

theorem missing_key_before_completion_requests:
  assumes "getenv_key E = None \<or> getenv_key E = Some []"
  shows "main E w = (1, emit (Print (ErrorLine (Exception missing_key_message))) w) \<and>
         fst (run_pipeline E url w) = False \<and>
         http_posts (snd (run_pipeline E url w)) = http_posts w \<and>
         (fst (step_1_scraping E url w) \<longrightarrow>
            run_pipeline E url w =
              (False, emit (Print (ErrorLine (Exception missing_key_message)))
                        (emit (Print (ErrorLine (Exception missing_key_message)))
                           (sleep 1 (snd (step_1_scraping E url w))))))"
proof -
  note l = load_environment_missing [OF assms]
  obtain b w1 where s1: "step_1_scraping E url w = (b, w1)"
    by (cases "step_1_scraping E url w")
  have p: "http_posts w1 = http_posts w"
    using step_1_scraping_posts [of E url w] s1 by simp
  have "main E w = (1, emit (Print (ErrorLine (Exception missing_key_message))) w)"
    using l by (simp add: main_def)
  moreover have "fst (run_pipeline E url w) = False"
    using l s1 by (cases b) (simp_all add: run_pipeline_def step_2_load_api_key_def)
  moreover have "http_posts (snd (run_pipeline E url w)) = http_posts w"
    using l s1 p by (cases b) (simp_all add: run_pipeline_def step_2_load_api_key_def)
  moreover have "fst (step_1_scraping E url w) \<longrightarrow>
            run_pipeline E url w =
              (False, emit (Print (ErrorLine (Exception missing_key_message)))
                        (emit (Print (ErrorLine (Exception missing_key_message)))
                           (sleep 1 (snd (step_1_scraping E url w)))))"
    using l s1 by (cases b) (simp_all add: run_pipeline_def step_2_load_api_key_def)
  ultimately show ?thesis by simp
qed

theorem missing_key_before_completion_requests_witness:
  "(getenv_key \<lparr>getenv_key = None, service = (\<lambda>k. Timeout),
       wikipedia = (\<lambda>u. Article [(str ''Introduction'', [long_paragraph])]),
       writable = (\<lambda>p. True)\<rparr> = None \<or>
    getenv_key \<lparr>getenv_key = None, service = (\<lambda>k. Timeout),
       wikipedia = (\<lambda>u. Article [(str ''Introduction'', [long_paragraph])]),
       writable = (\<lambda>p. True)\<rparr> = Some []) \<and>
   main \<lparr>getenv_key = None, service = (\<lambda>k. Timeout),
       wikipedia = (\<lambda>u. Article [(str ''Introduction'', [long_paragraph])]),
       writable = (\<lambda>p. True)\<rparr> start =
     (1, \<lparr>trace = [Print (ErrorLine (Exception missing_key_message))], files = Map.empty\<rparr>) \<and>
   fst (run_pipeline \<lparr>getenv_key = None, service = (\<lambda>k. Timeout),
       wikipedia = (\<lambda>u. Article [(str ''Introduction'', [long_paragraph])]),
       writable = (\<lambda>p. True)\<rparr> article_url start) = False \<and>
   http_posts (snd (run_pipeline \<lparr>getenv_key = None, service = (\<lambda>k. Timeout),
       wikipedia = (\<lambda>u. Article [(str ''Introduction'', [long_paragraph])]),
       writable = (\<lambda>p. True)\<rparr> article_url start)) = 0"
  using missing_key_before_completion_requests [of
     "\<lparr>getenv_key = None, service = (\<lambda>k. Timeout),
       wikipedia = (\<lambda>u. Article [(str ''Introduction'', [long_paragraph])]),
       writable = (\<lambda>p. True)\<rparr>" start article_url]
  by (simp add: start_def emit_def http_posts_def)

text \<open>
  The claim C8 as stated fails for the pipeline: with no API key and an article that
  can be fetched, the GET of the article is the first effect of \<open>run_pipeline\<close>, before
  the configuration error is printed.
\<close>

theorem page_fetched_before_key_check:
  "getenv_key \<lparr>getenv_key = None, service = (\<lambda>k. Timeout),
       wikipedia = (\<lambda>u. Article [(str ''Introduction'', [long_paragraph])]),
       writable = (\<lambda>p. True)\<rparr> = None \<and>
   trace (snd (run_pipeline
     \<lparr>getenv_key = None, service = (\<lambda>k. Timeout),
       wikipedia = (\<lambda>u. Article [(str ''Introduction'', [long_paragraph])]),
       writable = (\<lambda>p. True)\<rparr> article_url start)) =
   [HttpGet article_url, Sleep 1,
    Print (ErrorLine (Exception missing_key_message)),
    Print (ErrorLine (Exception missing_key_message))]"
  by (simp add: run_pipeline_def step_1_scraping_def scrape_def save_to_file_def save_as_json_def
      convert_txt_to_json_def step_2_load_api_key_def load_environment_def Let_def start_def
      emit_def sleep_def)

section \<open>The output formatter\<close>

lemma section_block_hd: "section_block item \<noteq> [] \<and> hd (section_block item) = of_char CHR ''#''"
  by (simp add: section_block_def str_def)

lemma blocks_hd:
  "items \<noteq> [] \<Longrightarrow>
   concat (map section_block items) \<noteq> [] \<and> hd (concat (map section_block items)) = of_char CHR ''#''"
  using section_block_hd by (cases items) (simp_all add: hd_append)

text \<open>Joining the lines with a newline gives the blocks, up to the last newline.\<close>

lemma join_output_lines:
  "items \<noteq> [] \<Longrightarrow> join nl (output_lines items) @ nl = concat (map section_block items)"
proof (induction items)
  case Nil
  then show ?case by simp
next
  case (Cons item items)
  obtain k s where item: "item = (k, s)" by (cases item)
  show ?case
  proof (cases items)
    case Nil
    then show ?thesis using item by (simp add: section_block_def)
  next
    case (Cons item' items')
    obtain k' s' where "item' = (k', s')" by (cases item')
    with Cons obtain l1 l2 ls where ls: "output_lines items = l1 # l2 # ls"
      by simp
    have ih: "join nl (output_lines items) @ nl = concat (map section_block items)"
      using Cons.IH Cons by simp
    have b: "section_block (k, s) =
        (if of_char CHR ''>'' \<in> set k then str ''### '' else str ''## '') @ k @ nl @ nl @ s @ nl @ nl"
      by (simp add: section_block_def)
    have "join nl (output_lines (item # items)) @ nl =
        section_block (k, s) @ join nl (output_lines items) @ nl"
      unfolding b using item ls by simp
    then show ?thesis
      using item ih by simp
  qed
qed

lemma format_as_blocks:
  "format_markdown_output self items = strip (concat (map section_block items))"
proof (cases items)
  case Nil
  then show ?thesis by (simp add: format_markdown_output_def)
next
  case (Cons item items')
  then have "concat (map section_block items) = join nl (output_lines items) @ nl"
    using join_output_lines [of items] by simp
  then show ?thesis
    by (simp add: format_markdown_output_def strip_append_nl)
qed

text \<open>
  The output is the trimmed concatenation of the blocks of the items, in the order of
  the mapping. When the last summary is not empty and does not end in whitespace (as in
  every mapping the orchestrator builds), the trimming removes the blank line after the
  last summary and nothing else.
\<close>

lemma layout_of_blocks:
  "format_markdown_output self items = strip (concat (map section_block items)) \<and>
   (items \<noteq> [] \<and> snd (last items) \<noteq> [] \<and> \<not> is_space (last (snd (last items))) \<longrightarrow>
      format_markdown_output self items @ nl @ nl = concat (map section_block items))"
proof (intro conjI impI)
  show "format_markdown_output self items = strip (concat (map section_block items))"
    by (rule format_as_blocks)
next
  assume a: "items \<noteq> [] \<and> snd (last items) \<noteq> [] \<and> \<not> is_space (last (snd (last items)))"
  then obtain front k s where items: "items = front @ [(k, s)]"
    by (cases items rule: rev_cases) auto
  with a have s: "s \<noteq> []" "\<not> is_space (last s)" by simp_all
  let ?all = "concat (map section_block items)"
  let ?body = "concat (map section_block front) @
      (if of_char CHR ''>'' \<in> set k then str ''### '' else str ''## '') @ k @ nl @ nl @ s"
  have all: "?all = ?body @ nl @ nl"
    using items by (simp add: section_block_def)
  have "?body \<noteq> []" and "last ?body = last s"
    using s by simp_all
  then have r: "rstrip ?body = ?body"
    using s rstrip_last [of ?body] by simp
  have "?all \<noteq> []" and "\<not> is_space (hd ?all)"
    using blocks_hd [of items] a by (simp_all add: is_space_def)
  then have "strip ?all = rstrip ?all"
    by (rule strip_hd)
  also have "\<dots> = rstrip ?body"
    unfolding all using rstrip_append [of ?body "nl @ nl"] by simp
  finally have "strip ?all = ?body" using r by simp
  then show "format_markdown_output self items @ nl @ nl = ?all"
    using all by (simp add: format_as_blocks)
qed

lemma contains_set: "contains sub xs \<Longrightarrow> set sub \<subseteq> set xs"
proof (induction xs)
  case Nil
  then show ?case by simp
next
  case (Cons c cs)
  from Cons.prems have "prefix sub (c # cs) \<or> contains sub cs" by simp
  then show ?case
  proof
    assume "prefix sub (c # cs)"
    then show ?thesis by (rule set_mono_prefix)
  next
    assume "contains sub cs"
    then have "set sub \<subseteq> set cs" by (rule Cons.IH)
    then show ?thesis by auto
  qed
qed

lemma subsection_key_has_gt: "is_subsection_key k \<Longrightarrow> of_char CHR ''>'' \<in> set k"
  using contains_set [of "str '' > ''" k] by (auto simp add: is_subsection_key_def str_def)

lemma spec_block_eq:
  "(of_char CHR ''>'' \<in> set (fst item) \<longrightarrow> is_subsection_key (fst item)) \<Longrightarrow>
   spec_block item = section_block item"
  using subsection_key_has_gt [of "fst item"] by (auto simp add: spec_block_def section_block_def)

text \<open>
  C6, as amended. For a mapping in which every key that contains the character \<open>>\<close>
  contains the path separator, the output is the trimmed concatenation, in the order of
  the mapping, of one block for each item: the heading line (level 3 for a subsection
  key, level 2 for a top-level key), a blank line, the summary and a blank line. The
  trimming is part of the format: when the last summary is not empty and does not end
  in whitespace, the output ends with that summary, and the blank line after it is the
  only part of the blocks that is missing.
\<close>

theorem markdown_layout_by_separator:
  assumes "\<forall>item\<in>set items. of_char CHR ''>'' \<in> set (fst item) \<longrightarrow> is_subsection_key (fst item)"
  shows "format_markdown_output self items = strip (concat (map spec_block items)) \<and>
         (items \<noteq> [] \<and> snd (last items) \<noteq> [] \<and> \<not> is_space (last (snd (last items))) \<longrightarrow>
            format_markdown_output self items @ nl @ nl = concat (map spec_block items))"
proof -
  have e: "map spec_block items = map section_block items"
    using assms by (simp add: spec_block_eq)
  show ?thesis
    unfolding e by (rule layout_of_blocks)
qed

theorem markdown_layout_by_separator_witness:
  "of_char CHR ''>'' \<notin> set (str ''History'') \<and>
   is_subsection_key (str ''History > Early Life'') \<and>
   format_markdown_output (GroqSummarizer (str ''key''))
      [(str ''History'', str ''First.''), (str ''History > Early Life'', str ''Second.'')] @ nl @ nl =
     str ''## History'' @ nl @ nl @ str ''First.'' @ nl @ nl @
     str ''### History > Early Life'' @ nl @ nl @ str ''Second.'' @ nl @ nl"
proof -
  let ?items = "[(str ''History'', str ''First.''), (str ''History > Early Life'', str ''Second.'')]"
  have k: "\<forall>item\<in>set ?items. of_char CHR ''>'' \<in> set (fst item) \<longrightarrow> is_subsection_key (fst item)"
    by (simp add: is_subsection_key_def str_def)
  have h: "?items \<noteq> [] \<and> snd (last ?items) \<noteq> [] \<and> \<not> is_space (last (snd (last ?items)))"
    by (simp add: is_space_def str_def)
  from markdown_layout_by_separator [OF k, of "GroqSummarizer (str ''key'')"] h
  have "format_markdown_output (GroqSummarizer (str ''key'')) ?items @ nl @ nl =
      concat (map spec_block ?items)"
    by blast
  then show ?thesis
    by (simp add: spec_block_def is_subsection_key_def str_def)
qed

text \<open>
  The claim as stated, with a blank line after every summary, fails for the last one:
  the output for a single item ends with the summary.
\<close>

theorem no_blank_line_after_last_summary:
  "format_markdown_output (GroqSummarizer (str ''key'')) [(str ''History'', str ''A summary.'')] =
     str ''## History'' @ nl @ nl @ str ''A summary.'' \<and>
   \<not> suffix nl (format_markdown_output (GroqSummarizer (str ''key''))
                  [(str ''History'', str ''A summary.'')])"
  by (simp add: format_markdown_output_def strip_def lstrip_def rstrip_def
      is_space_def str_def nl_def suffix_def)

text \<open>
  A top-level key whose text contains \<open>>\<close> without the path separator, such as
  \<open>Input -> Output\<close>, takes the branch that the source comments with "This is a
  subsection" and is rendered with a heading of level 3.
\<close>

lemma top_level_key_rendered_at_level_3:
  "\<not> is_subsection_key (str ''Input -> Output'') \<and>
   format_markdown_output (GroqSummarizer (str ''key'')) [(str ''Input -> Output'', str ''A summary.'')] =
     str ''### Input -> Output'' @ nl @ nl @ str ''A summary.''"
  by (simp add: is_subsection_key_def format_markdown_output_def strip_def lstrip_def rstrip_def
      is_space_def str_def nl_def)

text \<open>
  C9. The formatter reads nothing but the mapping it is given: whatever the state of the
  summarizer object, two applications to the same mapping give the same text.
\<close>

theorem format_markdown_output_deterministic:
  "format_markdown_output self items = format_markdown_output self' items"
  by (simp add: format_markdown_output_def)

text \<open>
  What the output holds from the place where the block of an item starts: the blocks of
  that item and of the items after it, trimmed on the right.
\<close>

lemma output_from_block:
  "drop (length (concat (map section_block front)))
     (format_markdown_output self (front @ item # rest)) =
   rstrip (section_block item @ concat (map section_block rest))"
proof -
  let ?p = "concat (map section_block front)"
  let ?q = "section_block item @ concat (map section_block rest)"
  have all: "concat (map section_block (front @ item # rest)) = ?p @ ?q"
    by simp
  have "?p @ ?q \<noteq> []" and "\<not> is_space (hd (?p @ ?q))"
    using blocks_hd [of "front @ item # rest"] by (simp_all add: is_space_def)
  then have "strip (?p @ ?q) = rstrip (?p @ ?q)"
    by (rule strip_hd)
  moreover have "\<not> (\<forall>c\<in>set ?q. is_space c)"
    using section_block_hd [of item] by (cases "section_block item") (auto simp add: is_space_def)
  then have "rstrip (?p @ ?q) = ?p @ rstrip ?q"
    by (rule rstrip_append_nonspace)
  ultimately have "strip (?p @ ?q) = ?p @ rstrip ?q"
    by simp
  then show ?thesis
    unfolding format_as_blocks all by simp
qed

text \<open>
  C10. The level of a heading depends only on whether the character \<open>>\<close> occurs in the
  key. For an item at any place of the mapping, the output continues, after the blocks
  of the items before it, with \<open>###\<close> and a space when the key contains \<open>>\<close>, and with
  \<open>##\<close> not followed by a third \<open>#\<close> when it does not.
\<close>

theorem heading_level_by_gt_character:
  "(of_char CHR ''>'' \<in> set k \<longrightarrow>
      take 4 (drop (length (concat (map section_block front)))
                (format_markdown_output self (front @ (k, s) # rest))) = str ''### '') \<and>
   (of_char CHR ''>'' \<notin> set k \<longrightarrow>
      take 2 (drop (length (concat (map section_block front)))
                (format_markdown_output self (front @ (k, s) # rest))) = str ''##'' \<and>
      take 3 (drop (length (concat (map section_block front)))
                (format_markdown_output self (front @ (k, s) # rest))) \<noteq> str ''###'')"
proof (intro conjI impI)
  let ?tail = "nl @ nl @ s @ nl @ nl @ concat (map section_block rest)"
  let ?out = "drop (length (concat (map section_block front)))
                (format_markdown_output self (front @ (k, s) # rest))"
  {
    assume gt: "of_char CHR ''>'' \<in> set k"
    then have "\<not> (\<forall>c\<in>set (k @ ?tail). is_space c)"
      using gt_not_space by auto
    then have "rstrip (str ''### '' @ k @ ?tail) = str ''### '' @ rstrip (k @ ?tail)"
      by (rule rstrip_append_nonspace)
    moreover have "section_block (k, s) @ concat (map section_block rest) = str ''### '' @ k @ ?tail"
      using gt by (simp add: section_block_def)
    ultimately have "?out = str ''### '' @ rstrip (k @ ?tail)"
      by (simp only: output_from_block)
    then show "take 4 ?out = str ''### ''"
      by (simp add: str_def)
  }
  {
    assume gt: "of_char CHR ''>'' \<notin> set k"
    let ?y = "str '' '' @ k @ ?tail"
    have b: "section_block (k, s) @ concat (map section_block rest) = str ''##'' @ ?y"
      using gt by (simp add: section_block_def str_def)
    have out: "?out = rstrip (str ''##'' @ ?y)"
      by (simp only: output_from_block b)
    have two: "rstrip (str ''##'') = str ''##''"
      by (simp add: rstrip_def str_def is_space_def)
    have "take 2 ?out = str ''##'' \<and> take 3 ?out \<noteq> str ''###''"
    proof (cases "\<forall>c\<in>set ?y. is_space c")
      case True
      then have "rstrip (str ''##'' @ ?y) = rstrip (str ''##'')"
        by (rule rstrip_append_space)
      then have "?out = str ''##''"
        unfolding out by (simp only: two)
      then show ?thesis by (simp add: str_def)
    next
      case False
      then have "rstrip (str ''##'' @ ?y) = str ''##'' @ rstrip ?y"
        by (rule rstrip_append_nonspace)
      then have o: "?out = str ''##'' @ rstrip ?y"
        unfolding out .
      from False have "rstrip ?y \<noteq> []"
        using rstrip_eq_Nil [of ?y] by blast
      moreover from this have "hd (rstrip ?y) = hd ?y"
        by (rule hd_rstrip)
      ultimately obtain t where "rstrip ?y = of_char CHR '' '' # t"
        by (cases "rstrip ?y") (simp_all add: str_def)
      with o show ?thesis by (simp add: str_def)
    qed
    then show "take 2 ?out = str ''##''" and "take 3 ?out \<noteq> str ''###''"
      by simp_all
  }
qed

theorem heading_level_by_gt_character_witness:
  "of_char CHR ''>'' \<in> set (str ''Input -> Output'') \<and>
   take 4 (format_markdown_output (GroqSummarizer (str ''key''))
             [(str ''Input -> Output'', str ''A summary.'')]) = str ''### '' \<and>
   of_char CHR ''>'' \<notin> set (str ''History'') \<and>
   take 2 (format_markdown_output (GroqSummarizer (str ''key''))
             [(str ''History'', str ''A summary.'')]) = str ''##'' \<and>
   take 3 (format_markdown_output (GroqSummarizer (str ''key''))
             [(str ''History'', str ''A summary.'')]) \<noteq> str ''###''"
  using heading_level_by_gt_character [of "str ''Input -> Output''" "[]" "GroqSummarizer (str ''key'')"
           "str ''A summary.''" "[]"]
        heading_level_by_gt_character [of "str ''History''" "[]" "GroqSummarizer (str ''key'')"
           "str ''A summary.''" "[]"]
  by (simp add: str_def)

end
